theory Spec2Isabelle
  imports Complex_Main "HOL-Library.Multiset"
begin

section \<open>Bike statistics: conventions of the embedding\<close>

text \<open>
  The notebook \<^verbatim>\<open>BikeCode.ipynb\<close> is Python. A Python integer is an \<^typ>\<open>int\<close>. A Python
  float is a binary64 number: a value of the type \<open>fval\<close> below, which is a rational that
  binary64 represents, an infinity or NaN. Every arithmetic operation on floats rounds its
  exact result to the nearest binary64 number, ties to even, and overflows to an infinity,
  as IEEE 754 prescribes; the conversion of an integer to a float rounds in the same way
  and raises \<^verbatim>\<open>OverflowError\<close> beyond the range. Zero has no sign in the model. Where only
  the order of finite distances or percentages matters (\<open>Ed_number\<close>, \<open>badge\<close>), a float is
  given by the rational it represents. An exception is a value of type \<open>error\<close>; a function
  that can raise returns \<open>error + 'a\<close>, with \<open>Inl\<close> for the exception, and \<open>bind\<close> passes the
  first exception on.
\<close>

datatype error =
  ValueError | KeyError | IndexError | OverflowError | ZeroDivisionError | RecursionError

definition bind :: "error + 'a \<Rightarrow> ('a \<Rightarrow> error + 'b) \<Rightarrow> error + 'b" where
  "bind m f = (case m of Inl e \<Rightarrow> Inl e | Inr x \<Rightarrow> f x)"

section \<open>Eddington number\<close>

text \<open>
  A data frame is read here only through \<^verbatim>\<open>rides[units]\<close>: a lookup of a column of
  distances by its name, which raises \<^verbatim>\<open>KeyError\<close> when there is no such column.
\<close>

type_synonym frame = "string \<rightharpoonup> rat list"

text \<open>\<^verbatim>\<open>enumerate(xs, start)\<close>: the elements of \<open>xs\<close> paired with \<open>start, start + 1, ...\<close>\<close>

definition enumerate_from :: "int \<Rightarrow> 'a list \<Rightarrow> (int \<times> 'a) list" where
  "enumerate_from start xs = zip [start .. start + int (length xs) - 1] xs"

text \<open>\<^verbatim>\<open>max(iterable)\<close> raises \<^verbatim>\<open>ValueError\<close> on an empty iterable.\<close>

fun py_max :: "int list \<Rightarrow> error + int" where
  "py_max [] = Inl ValueError"
| "py_max (x # xs) = Inr (fold max xs x)"

text \<open>\<^verbatim>\<open>sorted(xs, reverse=True)\<close>\<close>

definition sorted_reverse :: "rat list \<Rightarrow> rat list" where
  "sorted_reverse xs = rev (sort xs)"

text \<open>
  \<^verbatim>\<open>
  def Ed_number(rides, units) -> int:
      distances = sorted(rides[units], reverse=True)
      return max(e for e, d in enumerate(distances, 1) if d >= e)
  \<close>
\<close>

definition Ed_number :: "frame \<Rightarrow> string \<Rightarrow> error + int" where
  "Ed_number rides units =
     (case rides units of
        None \<Rightarrow> Inl KeyError
      | Some column \<Rightarrow>
          (let distances = sorted_reverse column
           in py_max [e. (e, d) \<leftarrow> enumerate_from 1 distances, d \<ge> of_int e]))"

text \<open>
  The specification's reading of the Eddington number: the number of entries that are at
  least \<open>e\<close>, and the brute-force maximum over the candidates \<open>0, ..., length ds\<close> of
  those \<open>e\<close> that at least \<open>e\<close> entries reach.
\<close>

definition count_ge :: "int \<Rightarrow> rat list \<Rightarrow> nat" where
  "count_ge e ds = length (filter (\<lambda>d. d \<ge> of_int e) ds)"


text \<open>
  The ranks that qualify: \<open>e\<close> between 1 and the number of rides such that at least
  \<open>e\<close> rides are at least \<open>e\<close> long. The scan of \<open>Ed_number\<close> collects exactly these.
\<close>

definition qualifying :: "rat list \<Rightarrow> int set" where
  "qualifying ds = {e. 1 \<le> e \<and> e \<le> int (length ds) \<and> e \<le> int (count_ge e ds)}"

section \<open>Numbers and their formatting\<close>

text \<open>Rounding of a rational to the nearest integer, a tie going to the even one.\<close>

definition round_half_even :: "rat \<Rightarrow> int" where
  "round_half_even x =
     (let f = \<lfloor>x\<rfloor>; r = x - of_int f
      in if r < 1/2 then f else if r > 1/2 then f + 1 else if even f then f else f + 1)"

text \<open>
  The binary64 number nearest to a rational, were the exponent unbounded above: 53
  significant bits, ties to even, with the subnormal range below \<open>2 powi -1022\<close>.
  \<open>ilog b n\<close> counts how often \<open>n\<close> can be divided by \<open>b\<close> before it falls below \<open>b\<close>.
\<close>

function ilog :: "int \<Rightarrow> int \<Rightarrow> int" where
  "ilog b n = (if b < 2 \<or> n < b then 0 else 1 + ilog b (n div b))"
  by pat_completeness auto
termination
proof (relation "measure (\<lambda>(b, n). nat n)")
  show "wf (measure (\<lambda>(b :: int, n). nat n))" by simp
next
  fix b n :: int
  assume "\<not> (b < 2 \<or> n < b)"
  then have b: "2 \<le> b" and n: "b \<le> n" by simp_all
  then have "0 < n" by simp
  have "n div b < n" using b \<open>0 < n\<close> by (intro int_div_less_self) simp_all
  with \<open>0 < n\<close> show "((b, n div b), (b, n)) \<in> measure (\<lambda>(b, n). nat n)" by simp
qed

declare ilog.simps [simp del]

text \<open>\<open>floor_log b x\<close> is the largest \<open>k\<close> with \<open>b powi k \<le> x\<close>, for \<open>x > 0\<close> and \<open>b \<ge> 2\<close>.\<close>

definition floor_log :: "int \<Rightarrow> rat \<Rightarrow> int" where
  "floor_log b x =
     (let (p, q) = quotient_of x; k = ilog b p - ilog b q
      in if of_int b powi k \<le> x then k else k - 1)"

definition binary64 :: "rat \<Rightarrow> rat" where
  "binary64 x =
     (if x = 0 then 0
      else let q = max (floor_log 2 \<bar>x\<bar> - 52) (- 1074)
           in of_int (round_half_even (x / 2 powi q)) * 2 powi q)"

text \<open>
  A float is a finite binary64 number, an infinity or NaN. \<open>float64\<close> is the rounding that
  ends every operation: the nearest binary64 number, and an infinity when that number
  would reach \<open>2 ^ 1024\<close>, which \<open>overflow_threshold\<close> writes out. It is also the value of a
  decimal literal such as \<^verbatim>\<open>0.02\<close>.
\<close>

datatype fval = Fin rat | PInf | NInf | NaN

definition overflow_threshold :: rat where
  "overflow_threshold =
     179769313486231590772930519078902473361797697894230657273430081157732675805500963132708477322407536021120113879871393357658789768814416622492847430639474124377767893424865485276302219601246094119453082952085005768838150682342462881473913110540827237163350510684586298239947245938479716304835356329624224137216"

definition float64 :: "rat \<Rightarrow> fval" where
  "float64 x =
     (let y = binary64 x
      in if overflow_threshold \<le> \<bar>y\<bar> then (if 0 < y then PInf else NInf) else Fin y)"

fun is_finite :: "fval \<Rightarrow> bool" where
  "is_finite (Fin x) = True"
| "is_finite v = False"

text \<open>
  The operations of IEEE 754 on these values. Division by zero gives an infinity, or NaN
  for \<open>0 / 0\<close>: this is what numpy and pandas do; Python's own \<^verbatim>\<open>/\<close> raises
  \<^verbatim>\<open>ZeroDivisionError\<close> instead, see \<open>py_truediv\<close>.
\<close>

fun fneg :: "fval \<Rightarrow> fval" where
  "fneg (Fin a) = Fin (- a)"
| "fneg PInf = NInf"
| "fneg NInf = PInf"
| "fneg NaN = NaN"

fun fadd :: "fval \<Rightarrow> fval \<Rightarrow> fval" where
  "fadd NaN y = NaN"
| "fadd x NaN = NaN"
| "fadd (Fin a) (Fin b) = float64 (a + b)"
| "fadd (Fin a) y = y"
| "fadd x (Fin b) = x"
| "fadd PInf PInf = PInf"
| "fadd NInf NInf = NInf"
| "fadd x y = NaN"

definition fsub :: "fval \<Rightarrow> fval \<Rightarrow> fval" where
  "fsub x y = fadd x (fneg y)"

fun fmul :: "fval \<Rightarrow> fval \<Rightarrow> fval" where
  "fmul NaN y = NaN"
| "fmul x NaN = NaN"
| "fmul (Fin a) (Fin b) = float64 (a * b)"
| "fmul (Fin a) PInf = (if a = 0 then NaN else if a > 0 then PInf else NInf)"
| "fmul (Fin a) NInf = (if a = 0 then NaN else if a > 0 then NInf else PInf)"
| "fmul PInf (Fin b) = (if b = 0 then NaN else if b > 0 then PInf else NInf)"
| "fmul NInf (Fin b) = (if b = 0 then NaN else if b > 0 then NInf else PInf)"
| "fmul PInf PInf = PInf"
| "fmul NInf NInf = PInf"
| "fmul x y = NInf"

fun fdiv :: "fval \<Rightarrow> fval \<Rightarrow> fval" where
  "fdiv NaN y = NaN"
| "fdiv x NaN = NaN"
| "fdiv (Fin a) (Fin b) =
     (if b = 0 then (if a = 0 then NaN else if a > 0 then PInf else NInf) else float64 (a / b))"
| "fdiv (Fin a) y = Fin 0"
| "fdiv PInf (Fin b) = (if b < 0 then NInf else PInf)"
| "fdiv NInf (Fin b) = (if b < 0 then PInf else NInf)"
| "fdiv x y = NaN"

text \<open>The comparison \<^verbatim>\<open><\<close>: false whenever NaN takes part.\<close>

fun fless :: "fval \<Rightarrow> fval \<Rightarrow> bool" where
  "fless NaN y = False"
| "fless x NaN = False"
| "fless (Fin a) (Fin b) = (a < b)"
| "fless (Fin a) PInf = True"
| "fless (Fin a) NInf = False"
| "fless PInf y = False"
| "fless NInf NInf = False"
| "fless NInf y = True"

text \<open>
  A Python number is an integer or a float. Arithmetic of two integers is exact; when a
  float takes part, the integer is converted first, and the conversion raises
  \<^verbatim>\<open>OverflowError\<close> when the integer is too large. True division always gives a float: of
  two integers it is the correctly rounded quotient, and a divisor that is zero raises
  \<^verbatim>\<open>ZeroDivisionError\<close>.
\<close>

datatype pynum = PyInt int | PyFloat fval

definition to_float :: "int \<Rightarrow> error + fval" where
  "to_float n = (case float64 (of_int n) of Fin y \<Rightarrow> Inr (Fin y) | v \<Rightarrow> Inl OverflowError)"

fun py_float :: "pynum \<Rightarrow> error + fval" where
  "py_float (PyInt n) = to_float n"
| "py_float (PyFloat v) = Inr v"

fun py_mul :: "pynum \<Rightarrow> pynum \<Rightarrow> error + pynum" where
  "py_mul (PyInt a) (PyInt b) = Inr (PyInt (a * b))"
| "py_mul x y = bind (py_float x) (\<lambda>u. bind (py_float y) (\<lambda>v. Inr (PyFloat (fmul u v))))"

fun py_add :: "pynum \<Rightarrow> pynum \<Rightarrow> error + pynum" where
  "py_add (PyInt a) (PyInt b) = Inr (PyInt (a + b))"
| "py_add x y = bind (py_float x) (\<lambda>u. bind (py_float y) (\<lambda>v. Inr (PyFloat (fadd u v))))"

fun py_truediv :: "pynum \<Rightarrow> pynum \<Rightarrow> error + fval" where
  "py_truediv (PyInt a) (PyInt b) =
     (if b = 0 then Inl ZeroDivisionError
      else (case float64 (of_int a / of_int b) of Fin y \<Rightarrow> Inr (Fin y) | v \<Rightarrow> Inl OverflowError))"
| "py_truediv x y =
     bind (py_float x) (\<lambda>u. bind (py_float y) (\<lambda>v.
       if v = Fin 0 then Inl ZeroDivisionError else Inr (fdiv u v)))"

text \<open>
  Python's \<^verbatim>\<open>round(x)\<close> on a float is the nearest integer, a tie going to the even one; it
  raises on an infinity and on NaN. \<^verbatim>\<open>round(x, ndigits)\<close> rounds the binary64 number itself
  at \<open>ndigits\<close> decimals, ties to even, and returns the float nearest to the result:
  \<^verbatim>\<open>round(0.005, 2)\<close> is 0.01, since the binary64 number nearest to 0.005 lies above it.
  An integer, an infinity and NaN are returned as they are.
\<close>

fun py_round :: "fval \<Rightarrow> error + int" where
  "py_round (Fin x) = Inr (round_half_even x)"
| "py_round NaN = Inl ValueError"
| "py_round v = Inl OverflowError"

fun py_round_to :: "pynum \<Rightarrow> nat \<Rightarrow> pynum" where
  "py_round_to (PyFloat (Fin x)) ndigits =
     PyFloat (float64 (of_int (round_half_even (x * 10 ^ ndigits)) / 10 ^ ndigits))"
| "py_round_to v ndigits = v"

text \<open>\<^verbatim>\<open>str(n)\<close> for an integer: its decimal digits, with a minus sign when negative.\<close>

definition digit_char :: "int \<Rightarrow> char" where
  "digit_char d = ''0123456789'' ! nat d"

function digits_of :: "int \<Rightarrow> string" where
  "digits_of n =
     (if n < 10 then [digit_char n]
      else digits_of (n div 10) @ [digit_char (n mod 10)])"
  by pat_completeness auto
termination
  by (relation "measure nat") auto

declare digits_of.simps [simp del]

definition py_str_int :: "int \<Rightarrow> string" where
  "py_str_int n = (if n < 0 then ''-'' @ digits_of (- n) else digits_of n)"

text \<open>Right-justification in a field of the given width, as \<^verbatim>\<open>>5\<close> does in a format.\<close>

definition rjust :: "nat \<Rightarrow> string \<Rightarrow> string" where
  "rjust width s = replicate (width - length s) CHR '' '' @ s"

text \<open>
  The format \<^verbatim>\<open>.pf\<close>: the binary64 number \<open>x\<close> rounded to \<open>p\<close> decimals (ties to even),
  the sign kept even when the digits are all zero, as Python prints \<^verbatim>\<open>-0.0\<close> for
  \<^verbatim>\<open>f'{-0.01:.1f}'\<close>. An infinity prints as \<^verbatim>\<open>inf\<close> or \<^verbatim>\<open>-inf\<close>, NaN as \<^verbatim>\<open>nan\<close>.
\<close>

definition format_f :: "nat \<Rightarrow> rat \<Rightarrow> string" where
  "format_f p x =
     (let n = round_half_even (\<bar>binary64 x\<bar> * 10 ^ p);
          whole = digits_of (n div 10 ^ p);
          frac = digits_of (n mod 10 ^ p)
      in (if x < 0 then ''-'' else '''') @ whole @
         (if p = 0 then '''' else ''.'' @ replicate (p - length frac) CHR ''0'' @ frac))"

fun format_float :: "nat \<Rightarrow> fval \<Rightarrow> string" where
  "format_float p (Fin x) = format_f p x"
| "format_float p PInf = ''inf''"
| "format_float p NInf = ''-inf''"
| "format_float p NaN = ''nan''"

text \<open>The format \<^verbatim>\<open>,d\<close>: an integer with a comma between groups of three digits.\<close>

function group_thousands :: "string \<Rightarrow> string" where
  "group_thousands ds =
     (if length ds \<le> 3 then ds
      else group_thousands (take (length ds - 3) ds) @ '','' @ drop (length ds - 3) ds)"
  by pat_completeness auto
termination
  by (relation "measure length") auto

declare group_thousands.simps [simp del]

definition format_comma_d :: "int \<Rightarrow> string" where
  "format_comma_d n =
     (if n < 0 then ''-'' @ group_thousands (digits_of (- n))
      else group_thousands (digits_of n))"

text \<open>
  \<^verbatim>\<open>str(x)\<close> of a float is its \<^verbatim>\<open>repr\<close>: the shortest decimal string that reads back as
  the same binary64 number, the closest to it when several are as short.
\<close>

text \<open>
  The candidates with \<open>n\<close> significant digits for a positive float \<open>a\<close> are the two
  \<open>n\<close>-digit decimals around it; \<open>shortest_decimal\<close> tries 1, 2, ... digits and
  returns the first candidate that reads back as \<open>a\<close>, with its decimal scale. Seventeen
  digits always suffice for a binary64 number.
\<close>

definition reads_back :: "rat \<Rightarrow> rat \<Rightarrow> bool" where
  "reads_back a d = (binary64 d = a)"

fun shortest_decimal :: "rat \<Rightarrow> nat \<Rightarrow> nat \<Rightarrow> int \<times> int" where
  "shortest_decimal a n 0 =
     (round_half_even (a / 10 powi (floor_log 10 a - int n + 1)), floor_log 10 a - int n + 1)"
| "shortest_decimal a n (Suc fuel) =
     (let s = floor_log 10 a - int n + 1;
          lo = \<lfloor>a / 10 powi s\<rfloor>; hi = \<lceil>a / 10 powi s\<rceil>;
          lo_ok = reads_back a (of_int lo * 10 powi s);
          hi_ok = reads_back a (of_int hi * 10 powi s)
      in if lo_ok \<and> hi_ok then (round_half_even (a / 10 powi s), s)
         else if lo_ok then (lo, s)
         else if hi_ok then (hi, s)
         else shortest_decimal a (Suc n) fuel)"

fun strip_zeros :: "string \<Rightarrow> string" where
  "strip_zeros ds = rev (dropWhile (\<lambda>c. c = CHR ''0'') (rev ds))"

definition float_repr :: "rat \<Rightarrow> string" where
  "float_repr x =
     (let v = binary64 x in
      if v = 0 then ''0.0''
      else
        let (m, s) = shortest_decimal \<bar>v\<bar> 1 16;
            ds = strip_zeros (digits_of m);
            decpt = int (length (digits_of m)) + s;
            body =
              (if - 4 < decpt \<and> decpt \<le> 16 then
                 (if decpt \<le> 0 then ''0.'' @ replicate (nat (- decpt)) CHR ''0'' @ ds
                  else if int (length ds) \<le> decpt
                    then ds @ replicate (nat decpt - length ds) CHR ''0'' @ ''.0''
                  else take (nat decpt) ds @ ''.'' @ drop (nat decpt) ds)
               else
                 take 1 ds @ (if length ds > 1 then ''.'' @ drop 1 ds else []) @ ''e''
                 @ (if decpt - 1 < 0 then ''-'' else ''+'')
                 @ (if \<bar>decpt - 1\<bar> < 10 then ''0'' else []) @ digits_of \<bar>decpt - 1\<bar>)
        in (if v < 0 then ''-'' else []) @ body)"

text \<open>\<^verbatim>\<open>str\<close> of a number, as a format without specification prints it.\<close>

fun py_str :: "pynum \<Rightarrow> string" where
  "py_str (PyInt n) = py_str_int n"
| "py_str (PyFloat (Fin x)) = float_repr x"
| "py_str (PyFloat PInf) = ''inf''"
| "py_str (PyFloat NInf) = ''-inf''"
| "py_str (PyFloat NaN) = ''nan''"

definition float_repr_of :: "fval \<Rightarrow> string" where
  "float_repr_of v = py_str (PyFloat v)"

section \<open>Wandrer places: badges and progress\<close>

text \<open>
  \<^verbatim>\<open>
  def rounded(x: float) -> str:
      return (rounded(x/1e6) + 'M' if x > 1e6
              else f'{x/1e6:4.2f}M' if x > 1e5
              else f'{round(x):,d}' if x > 10
              else f'{x:.1f}')
  \<close>
  The argument is a float. For the positive infinity the quotient \<^verbatim>\<open>x/1e6\<close> is the infinity
  again: the recursion does not end and Python raises \<^verbatim>\<open>RecursionError\<close>. For every other
  float the recursion is at most 52 deep.
\<close>

function rounded :: "fval \<Rightarrow> error + string" where
  "rounded x =
     (if fless (Fin 1000000) x then
        (if x = PInf then Inl RecursionError
         else (case rounded (fdiv x (Fin 1000000)) of
                 Inl e \<Rightarrow> Inl e
               | Inr s \<Rightarrow> Inr (s @ ''M'')))
      else if fless (Fin 100000) x then
        Inr (rjust 4 (format_float 2 (fdiv x (Fin 1000000))) @ ''M'')
      else if fless (Fin 10) x then
        (case py_round x of Inl e \<Rightarrow> Inl e | Inr n \<Rightarrow> Inr (format_comma_d n))
      else Inr (format_float 1 x))"
  by pat_completeness auto

termination
proof (relation "measure (\<lambda>x. case x of Fin r \<Rightarrow> nat \<lceil>r\<rceil> | _ \<Rightarrow> 0)")
  show "wf (measure (\<lambda>x. case x of Fin r \<Rightarrow> nat \<lceil>r\<rceil> | _ \<Rightarrow> 0))" by simp
next
  fix x :: fval
  assume big: "fless (Fin 1000000) x" and fin: "x \<noteq> PInf"
  then obtain r where x: "x = Fin r" and r: "1000000 < r" by (cases x) auto
  have half: "of_int (round_half_even z) \<le> 2 * z" if "0 \<le> z" for z :: rat
  proof -
    define f where "f = \<lfloor>z\<rfloor>"
    have f1: "of_int f \<le> z" and f2: "z < of_int f + 1" unfolding f_def by linarith+
    from that have "0 \<le> f" by (simp add: f_def)
    then have f0: "(0 :: rat) \<le> of_int f" by simp
    have "round_half_even z = f \<or> (round_half_even z = f + 1 \<and> 1/2 \<le> z - of_int f)"
      by (auto simp: round_half_even_def Let_def f_def)
    then show ?thesis
    proof
      assume "round_half_even z = f"
      with f1 f0 that show ?thesis by simp
    next
      assume "round_half_even z = f + 1 \<and> 1/2 \<le> z - of_int f"
      with f0 show ?thesis by simp
    qed
  qed
  define y where "y = binary64 (r / 1000000)"
  have "y \<le> 2 * (r / 1000000)"
  proof -
    define q where "q = max (floor_log 2 \<bar>r / 1000000\<bar> - 52) (- 1074)"
    define w where "w = r / 1000000 / 2 powi q"
    have pos: "(0 :: rat) < 2 powi q" by (simp add: zero_less_power_int)
    from r pos have "0 \<le> w" by (simp add: w_def)
    then have "of_int (round_half_even w) \<le> 2 * w" by (rule half)
    then have "of_int (round_half_even w) * 2 powi q \<le> (2 * w) * 2 powi q"
      using pos by (intro mult_right_mono) simp_all
    also have "(2 * w) * 2 powi q = 2 * (r / 1000000)"
      using pos by (simp add: w_def)
    finally have "of_int (round_half_even w) * 2 powi q \<le> 2 * (r / 1000000)" .
    moreover have "y = of_int (round_half_even w) * 2 powi q"
      using r by (simp add: y_def binary64_def Let_def q_def w_def)
    ultimately show ?thesis by simp
  qed
  with r have "y \<le> r - 1" by simp
  then have "\<lceil>y\<rceil> \<le> \<lceil>r - 1\<rceil>" by (rule ceiling_mono)
  then have less: "\<lceil>y\<rceil> < \<lceil>r\<rceil>" by simp
  from r have pos: "0 < \<lceil>r\<rceil>" by simp
  have "fdiv x (Fin 1000000) = float64 (r / 1000000)" by (simp add: x)
  also have "float64 (r / 1000000) = Fin y \<or> float64 (r / 1000000) = PInf
      \<or> float64 (r / 1000000) = NInf"
    by (simp add: float64_def Let_def y_def)
  finally show "(fdiv x (Fin 1000000), x) \<in> measure (\<lambda>x. case x of Fin r \<Rightarrow> nat \<lceil>r\<rceil> | _ \<Rightarrow> 0)"
    using less pos by (auto simp: x)
qed

declare rounded.simps [simp del]

text \<open>
  \<^verbatim>\<open>
  def badge(pct) -> str:
      for badge in (99, 90, 75, 50, 25):
          if pct >= badge:
              return f'{badge}%'
      return 'none'
  \<close>
  The loop over the tuple is \<open>badge_scan\<close> on the tiers that remain; \<open>pct\<close> is a finite
  float, given by its value.
\<close>

fun badge_scan :: "rat \<Rightarrow> int list \<Rightarrow> string" where
  "badge_scan pct [] = ''none''"
| "badge_scan pct (badge # badges) =
     (if pct \<ge> of_int badge then py_str_int badge @ ''%'' else badge_scan pct badges)"

definition badge :: "rat \<Rightarrow> string" where
  "badge pct = badge_scan pct [99, 90, 75, 50, 25]"

text \<open>
  A dictionary keeps its keys in insertion order, so it is the list of its items.
  \<^verbatim>\<open>
  bonuses = {0.02: 0, 0.1: 0, 0.2: 0, 1: 0, 2: 0, 25: .25, 50: .05, 75: .10, 90: .50, 99: .10}
  \<close>
\<close>

type_synonym tier_table = "(pynum \<times> pynum) list"

definition bonuses :: tier_table where
  "bonuses =
     [(PyFloat (float64 (2/100)), PyInt 0), (PyFloat (float64 (1/10)), PyInt 0),
      (PyFloat (float64 (2/10)), PyInt 0), (PyInt 1, PyInt 0), (PyInt 2, PyInt 0),
      (PyInt 25, PyFloat (float64 (25/100))), (PyInt 50, PyFloat (float64 (5/100))),
      (PyInt 75, PyFloat (float64 (10/100))), (PyInt 90, PyFloat (float64 (50/100))),
      (PyInt 99, PyFloat (float64 (10/100)))]"

text \<open>The table of the column "to big badge": \<^verbatim>\<open>{25: .25, 90: .50}\<close>\<close>

definition big_bonuses :: tier_table where
  "big_bonuses =
     [(PyInt 25, PyFloat (float64 (25/100))), (PyInt 90, PyFloat (float64 (50/100)))]"

text \<open>
  \<^verbatim>\<open>
  def to_go(pct, miles, bonuses=bonuses) -> str:
      done = pct * miles / 100
      for b in bonuses:
          if done < b / 100 * miles:
              delta = b / 100 * miles - done
              return f'{rounded(delta):>5} mi to {b}% ({rounded(bonuses[b] * miles + delta)} points)'
      return ''
  \<close>
  \<open>miles_done\<close> is \<^verbatim>\<open>pct * miles / 100\<close> and \<open>target_miles\<close> is \<^verbatim>\<open>b / 100 * miles\<close>, each
  operation rounded in the order written. The loop runs over the keys in order;
  \<^verbatim>\<open>bonuses[b]\<close> for the key \<open>b\<close> the loop is at is the value stored with it, so
  \<open>to_go_scan\<close> runs over the items that remain. The format evaluates \<^verbatim>\<open>rounded(delta)\<close>
  before the points.
\<close>

definition miles_done :: "pynum \<Rightarrow> pynum \<Rightarrow> error + fval" where
  "miles_done pct miles = bind (py_mul pct miles) (\<lambda>product. py_truediv product (PyInt 100))"

definition target_miles :: "pynum \<Rightarrow> pynum \<Rightarrow> error + fval" where
  "target_miles b miles =
     bind (py_truediv b (PyInt 100)) (\<lambda>share. bind (py_float miles) (\<lambda>m. Inr (fmul share m)))"

definition bonus_points :: "pynum \<Rightarrow> pynum \<Rightarrow> fval \<Rightarrow> error + fval" where
  "bonus_points bonus miles delta =
     bind (py_mul bonus miles) (\<lambda>flat. bind (py_float flat) (\<lambda>v. Inr (fadd v delta)))"

fun to_go_scan :: "fval \<Rightarrow> pynum \<Rightarrow> tier_table \<Rightarrow> error + string" where
  "to_go_scan done miles [] = Inr ''''"
| "to_go_scan done miles ((b, bonus) # rest) =
     bind (target_miles b miles) (\<lambda>target.
       if fless done target then
         (let delta = fsub target done
          in bind (rounded delta) (\<lambda>delta_text.
             bind (bonus_points bonus miles delta) (\<lambda>points.
             bind (rounded points) (\<lambda>points_text.
               Inr (rjust 5 delta_text @ '' mi to '' @ py_str b @ ''% (''
                    @ points_text @ '' points)'')))))
       else to_go_scan done miles rest)"

definition to_go :: "pynum \<Rightarrow> pynum \<Rightarrow> tier_table \<Rightarrow> error + string" where
  "to_go pct miles table = bind (miles_done pct miles) (\<lambda>done. to_go_scan done miles table)"

section \<open>Reading rides: durations\<close>

text \<open>\<^verbatim>\<open>s.split(sep)\<close> for a one-character separator: the fields between the separators,
  never an empty list.\<close>

fun split_on :: "char \<Rightarrow> string \<Rightarrow> string list" where
  "split_on sep [] = [[]]"
| "split_on sep (c # cs) =
     (if c = sep then [] # split_on sep cs
      else (case split_on sep cs of
              [] \<Rightarrow> [[c]]
            | field # fields \<Rightarrow> (c # field) # fields))"

text \<open>
  \<^verbatim>\<open>int(s)\<close> for an ASCII string: white space around the number is dropped, a sign may
  come first, then decimal digits, where a single underscore may stand between two digits.
  Anything else raises \<^verbatim>\<open>ValueError\<close>, and so does a number of more than 4300 digits,
  the interpreter's default limit for the conversion of strings to integers.
\<close>

definition max_str_digits :: nat where
  "max_str_digits = 4300"

definition is_space :: "char \<Rightarrow> bool" where
  "is_space c = (c \<in> set [CHR 0x09, CHR 0x0A, CHR 0x0B, CHR 0x0C, CHR 0x0D, CHR 0x20])"

definition is_digit :: "char \<Rightarrow> bool" where
  "is_digit c = (c \<in> set ''0123456789'')"

definition digit_val :: "char \<Rightarrow> int" where
  "digit_val c = of_char c - 48"

definition strip :: "string \<Rightarrow> string" where
  "strip s = rev (dropWhile is_space (rev (dropWhile is_space s)))"

fun int_body :: "int \<Rightarrow> bool \<Rightarrow> string \<Rightarrow> int option" where
  "int_body acc after_digit [] = (if after_digit then Some acc else None)"
| "int_body acc after_digit (c # cs) =
     (if is_digit c then int_body (10 * acc + digit_val c) True cs
      else if c = CHR ''_'' \<and> after_digit \<and> (case cs of [] \<Rightarrow> False | d # _ \<Rightarrow> is_digit d)
        then int_body acc False cs
      else None)"

definition int_text :: "string \<Rightarrow> error + int" where
  "int_text body =
     (case int_body 0 False body of
        None \<Rightarrow> Inl ValueError
      | Some n \<Rightarrow> if max_str_digits < length (filter is_digit body) then Inl ValueError else Inr n)"

definition py_int :: "string \<Rightarrow> error + int" where
  "py_int s =
     (case strip s of
        [] \<Rightarrow> Inl ValueError
      | c # cs \<Rightarrow>
          if c = CHR ''-'' then bind (int_text cs) (\<lambda>n. Inr (- n))
          else if c = CHR ''+'' then int_text cs
          else int_text (c # cs))"

text \<open>
  \<^verbatim>\<open>60 ** k\<close>: an integer for \<open>k \<ge> 0\<close>, and for a negative \<open>k\<close> the float that the C
  library's \<^verbatim>\<open>pow\<close> returns, the binary64 number nearest to the power (\<^verbatim>\<open>60 ** -1\<close> is
  \<^verbatim>\<open>0.016666666666666666\<close> and \<^verbatim>\<open>60 ** -2\<close> is \<^verbatim>\<open>0.0002777777777777778\<close>).
\<close>

definition sixty_to_the :: "int \<Rightarrow> pynum" where
  "sixty_to_the k = (if 0 \<le> k then PyInt (60 ^ nat k) else PyFloat (float64 (60 powi k)))"

text \<open>
  \<^verbatim>\<open>
  def parse_hours(time: str) -> float:
      hrs = sum(int(x) * 60 ** (i - 2)
                for i, x in enumerate(reversed(time.split(':'))))
      return round(hrs, 2)
  \<close>
  \<open>sum_hours\<close> is \<^verbatim>\<open>sum\<close> over the generator: starting from the integer 0 it adds the terms
  to the subtotal one by one, from left to right, each addition rounded, and stops at the
  first field that \<^verbatim>\<open>int\<close> rejects or that is too large for a float. This is the
  summation of CPython up to version 3.11; from version 3.12 on, \<^verbatim>\<open>sum\<close> also carries a
  correction for the rounding errors of the additions of two floats, which is left out here.
\<close>

fun sum_hours :: "pynum \<Rightarrow> (int \<times> string) list \<Rightarrow> error + pynum" where
  "sum_hours subtotal [] = Inr subtotal"
| "sum_hours subtotal ((i, x) # rest) =
     bind (py_int x) (\<lambda>n.
     bind (py_mul (PyInt n) (sixty_to_the (i - 2))) (\<lambda>summand.
     bind (py_add subtotal summand) (\<lambda>subtotal'.
       sum_hours subtotal' rest)))"

definition parse_hours :: "string \<Rightarrow> error + pynum" where
  "parse_hours time =
     bind (sum_hours (PyInt 0) (enumerate_from 0 (rev (split_on CHR '':'' time))))
       (\<lambda>hrs. Inr (py_round_to hrs 2))"

text \<open>
  The amended reading of a duration: a field is numeric when it is a non-empty string of
  at most 4300 digits, its value is the decimal number it spells, the field at position \<open>i\<close> from the
  right contributes its value times \<^verbatim>\<open>60 ** (i - 2)\<close>, and \<open>add_positions\<close> adds these
  contributions for the positions \<open>i, i + 1, ...\<close> in this order in Python's arithmetic.
\<close>

definition numeric :: "string \<Rightarrow> bool" where
  "numeric field = (field \<noteq> [] \<and> list_all is_digit field \<and> length field \<le> max_str_digits)"

definition decimal_value :: "string \<Rightarrow> int" where
  "decimal_value field = foldl (\<lambda>acc c. 10 * acc + digit_val c) 0 field"

definition contribution :: "string list \<Rightarrow> nat \<Rightarrow> error + pynum" where
  "contribution fields i =
     py_mul (PyInt (decimal_value (rev fields ! i))) (sixty_to_the (int i - 2))"

fun add_positions :: "string list \<Rightarrow> pynum \<Rightarrow> nat list \<Rightarrow> error + pynum" where
  "add_positions fields subtotal [] = Inr subtotal"
| "add_positions fields subtotal (i # positions) =
     bind (contribution fields i) (\<lambda>summand.
     bind (py_add subtotal summand) (\<lambda>subtotal'.
       add_positions fields subtotal' positions))"

definition duration_hours :: "string list \<Rightarrow> error + pynum" where
  "duration_hours fields = add_positions fields (PyInt 0) [0 ..< length fields]"

section \<open>Reading rides: derived columns\<close>

text \<open>
  The columns of a pandas data frame hold binary64 values, and pandas computes on them as
  numpy does: by the operations of IEEE 754, element by element, without raising. A column
  of integers is converted to floats when it meets a float.
  \<^verbatim>\<open>round(column)\<close> rounds every element to the nearest integer, ties to even, and
  \<^verbatim>\<open>round(column, ndigits)\<close> multiplies by \<open>10 ^ ndigits\<close>, rounds to the nearest integer and
  divides by \<open>10 ^ ndigits\<close>, each step rounded as a float operation.
\<close>

fun frint :: "fval \<Rightarrow> fval" where
  "frint (Fin x) = Fin (of_int (round_half_even x))"
| "frint v = v"

definition fround :: "nat \<Rightarrow> fval \<Rightarrow> fval" where
  "fround ndigits v =
     (if ndigits = 0 then frint v
      else fdiv (frint (fmul v (Fin (10 ^ ndigits)))) (Fin (10 ^ ndigits)))"

text \<open>
  A frame of rides has the columns \<open>hours\<close>, \<open>miles\<close> and \<open>feet\<close>, all of one length, and
  may have the columns \<open>date\<close> and \<open>year\<close>. \<open>add_ride_columns\<close> returns the frame with six
  more columns.
\<close>

record rides_frame =
  date :: "string list option"
  year :: "int list option"
  hours :: "fval list"
  miles :: "fval list"
  feet :: "int list"

record derived_frame = rides_frame +
  mph :: "fval list"
  vam :: "fval list"
  fpmi :: "fval list"
  pct :: "fval list"
  kms :: "fval list"
  meters :: "fval list"

text \<open>
  \<^verbatim>\<open>[int(str(d).split('/')[-1]) for d in rides['date'].tolist()]\<close>: the year of every
  date, \<^verbatim>\<open>ValueError\<close> at the first date whose last field is not an integer. Indexing
  with \<^verbatim>\<open>[-1]\<close> raises \<^verbatim>\<open>IndexError\<close> on an empty list, which \<^verbatim>\<open>split\<close> never returns.
\<close>

fun years_of :: "string list \<Rightarrow> error + int list" where
  "years_of [] = Inr []"
| "years_of (d # ds) =
     (case (case rev (split_on CHR ''/'' d) of [] \<Rightarrow> Inl IndexError | field # _ \<Rightarrow> py_int field) of
        Inl e \<Rightarrow> Inl e
      | Inr y \<Rightarrow> (case years_of ds of Inl e \<Rightarrow> Inl e | Inr ys \<Rightarrow> Inr (y # ys)))"

text \<open>
  \<^verbatim>\<open>
  if 'date' in rides and 'year' not in rides:
      rides.insert(1, "year", [int(str(d).split('/')[-1]) for d in rides['date'].tolist()])
  \<close>
\<close>

definition insert_year :: "rides_frame \<Rightarrow> error + rides_frame" where
  "insert_year rides =
     (case (date rides, year rides) of
        (Some dates, None) \<Rightarrow>
          (case years_of dates of Inl e \<Rightarrow> Inl e | Inr ys \<Rightarrow> Inr (rides\<lparr>year := Some ys\<rparr>))
      | _ \<Rightarrow> Inr rides)"

text \<open>
  \<^verbatim>\<open>
  def add_ride_columns(rides) -> pd.DataFrame:
      mi, hr, ft = rides['miles'], rides['hours'], rides['feet']
      if 'date' in rides and 'year' not in rides: ...
      return rides.assign(
          mph=round(mi / hr, 2),
          vam=round(ft / hr / 3.28084),
          fpmi=round(ft / mi),
          pct=round(ft / mi * 100 / 5280, 2),
          kms=round(mi * 1.609, 2),
          meters=round(ft * 0.3048))
  \<close>
  Arithmetic on columns is element by element; a column with a number applies the number
  to every element. The column of feet holds integers below \<open>2 ^ 63\<close>, whose conversion to
  floats does not overflow.
\<close>

definition add_ride_columns :: "rides_frame \<Rightarrow> error + derived_frame" where
  "add_ride_columns rides =
     (let mi = miles rides; hr = hours rides; ft = map (\<lambda>n. float64 (of_int n)) (feet rides)
      in case insert_year rides of
           Inl e \<Rightarrow> Inl e
         | Inr rides' \<Rightarrow>
             Inr (rides_frame.extend rides'
               \<lparr> mph = map (fround 2) (map2 fdiv mi hr),
                 vam = map (fround 0)
                         (map (\<lambda>v. fdiv v (float64 (328084 / 100000))) (map2 fdiv ft hr)),
                 fpmi = map (fround 0) (map2 fdiv ft mi),
                 pct = map (fround 2)
                         (map (\<lambda>v. fdiv v (Fin 5280)) (map (\<lambda>v. fmul v (Fin 100)) (map2 fdiv ft mi))),
                 kms = map (fround 2) (map (\<lambda>v. fmul v (float64 (1609 / 1000))) mi),
                 meters = map (fround 0) (map (\<lambda>v. fmul v (float64 (3048 / 10000))) ft) \<rparr>))"

section \<open>Properties of the Eddington number\<close>

lemma count_ge_mset: "mset xs = mset ys \<Longrightarrow> count_ge e xs = count_ge e ys"
proof -
  assume h: "mset xs = mset ys"
  have "\<And>zs. count_ge e zs = size (filter_mset (\<lambda>d. d \<ge> of_int e) (mset zs))"
    by (simp add: count_ge_def flip: mset_filter)
  with h show ?thesis by simp
qed

lemma count_ge_sorted_reverse: "count_ge e (sorted_reverse ds) = count_ge e ds"
  by (rule count_ge_mset) (simp add: sorted_reverse_def)


lemma sorted_reverse_desc: "sorted_wrt (\<ge>) (sorted_reverse ds)"
  by (simp add: sorted_reverse_def sorted_wrt_rev)

lemma length_sorted_reverse: "length (sorted_reverse ds) = length ds"
  by (simp add: sorted_reverse_def)

lemma set_candidates:
  fixes xs :: "rat list"
  shows "set [e. (e, d) \<leftarrow> enumerate_from 1 xs, d \<ge> of_int e] =
     {e. 1 \<le> e \<and> e \<le> int (length xs) \<and> xs ! nat (e - 1) \<ge> of_int e}"
proof -
  have "\<And>e d. (e, d) \<in> set (enumerate_from 1 xs) \<longleftrightarrow>
          (1 \<le> e \<and> e \<le> int (length xs) \<and> d = xs ! nat (e - 1))"
  proof -
    fix e :: int and d :: rat
    show "(e, d) \<in> set (enumerate_from 1 xs) \<longleftrightarrow>
          (1 \<le> e \<and> e \<le> int (length xs) \<and> d = xs ! nat (e - 1))"
    proof
      assume "(e, d) \<in> set (enumerate_from 1 xs)"
      then obtain i where i: "i < length xs" "[1 .. int (length xs)] ! i = e" "xs ! i = d"
        by (auto simp: enumerate_from_def in_set_zip)
      from i(1) have "[1 .. int (length xs)] ! i = 1 + int i"
        by (intro nth_upto) simp
      with i show "1 \<le> e \<and> e \<le> int (length xs) \<and> d = xs ! nat (e - 1)"
        by auto
    next
      assume h: "1 \<le> e \<and> e \<le> int (length xs) \<and> d = xs ! nat (e - 1)"
      then have i: "nat (e - 1) < length xs" by auto
      from h have "[1 .. int (length xs)] ! nat (e - 1) = 1 + int (nat (e - 1))"
        by (intro nth_upto) auto
      with h i show "(e, d) \<in> set (enumerate_from 1 xs)"
        by (auto simp: enumerate_from_def in_set_zip intro!: exI[of _ "nat (e - 1)"])
    qed
  qed
  then show ?thesis by auto
qed

lemma py_max_eq: "cs \<noteq> [] \<Longrightarrow> py_max cs = Inr (Max (set cs))"
  by (cases cs) (simp_all flip: Max.set_eq_fold)

lemma rank_iff_count:
  assumes desc: "sorted_wrt (\<ge>) xs" and e: "1 \<le> e" "e \<le> int (length xs)"
  shows "(xs ! nat (e - 1) \<ge> of_int e) \<longleftrightarrow> e \<le> int (count_ge e xs)"
proof -
  define k where "k = nat (e - 1)"
  have k: "k < length xs" "int k + 1 = e" using e by (auto simp: k_def)
  have split: "count_ge e xs = count_ge e (take k xs) + count_ge e (drop k xs)"
    unfolding count_ge_def by (metis append_take_drop_id filter_append length_append)
  show ?thesis
  proof
    assume h: "xs ! nat (e - 1) \<ge> of_int e"
    have "\<forall>d \<in> set (take (Suc k) xs). d \<ge> of_int e"
    proof
      fix d assume "d \<in> set (take (Suc k) xs)"
      then obtain i where i: "i < Suc k" "i < length xs" "d = xs ! i"
        by (auto simp: in_set_conv_nth)
      have "xs ! i \<ge> xs ! k"
      proof (cases "i = k")
        case True then show ?thesis by simp
      next
        case False
        with i have "i < k" by simp
        with k show ?thesis using sorted_wrt_nth_less[OF desc, of i k] by simp
      qed
      with h i show "d \<ge> of_int e" by (simp add: k_def)
    qed
    then have "filter (\<lambda>d. d \<ge> of_int e) (take (Suc k) xs) = take (Suc k) xs"
      by simp
    moreover have "count_ge e xs = count_ge e (take (Suc k) xs) + count_ge e (drop (Suc k) xs)"
      unfolding count_ge_def by (metis append_take_drop_id filter_append length_append)
    ultimately have "count_ge e xs \<ge> Suc k"
      using k by (simp add: count_ge_def)
    with k show "e \<le> int (count_ge e xs)" by simp
  next
    assume h: "e \<le> int (count_ge e xs)"
    show "xs ! nat (e - 1) \<ge> of_int e"
    proof (rule ccontr)
      assume "\<not> xs ! nat (e - 1) \<ge> of_int e"
      then have lt: "xs ! k < of_int e" by (simp add: k_def)
      have "\<forall>d \<in> set (drop k xs). \<not> d \<ge> of_int e"
      proof
        fix d assume "d \<in> set (drop k xs)"
        then obtain i where i: "k \<le> i" "i < length xs" "d = xs ! i"
          by (auto simp: in_set_conv_nth) (metis le_add1 add.commute less_diff_conv)
        have "xs ! i \<le> xs ! k"
        proof (cases "i = k")
          case True then show ?thesis by simp
        next
          case False
          with i have "k < i" by simp
          with i show ?thesis using sorted_wrt_nth_less[OF desc, of k i] by simp
        qed
        with lt i show "\<not> d \<ge> of_int e" by simp
      qed
      then have "filter (\<lambda>d. d \<ge> of_int e) (drop k xs) = []"
        by (simp add: filter_empty_conv)
      with split have "count_ge e xs = count_ge e (take k xs)"
        by (simp add: count_ge_def)
      also have "\<dots> \<le> k" using k by (simp add: count_ge_def) (metis length_filter_le length_take min.absorb2 less_imp_le_nat min.commute)
      finally show False using h k by simp
    qed
  qed
qed

lemma candidates_qualifying:
  "set [e. (e, d) \<leftarrow> enumerate_from 1 (sorted_reverse ds), d \<ge> of_int e] = qualifying ds"
  unfolding set_candidates qualifying_def
  using rank_iff_count[OF sorted_reverse_desc, of _ ds]
  by (auto simp: length_sorted_reverse count_ge_sorted_reverse)



lemma none_qualifying:
  assumes "\<forall>d\<in>set ds. d < 1"
  shows "qualifying ds = {}"
proof -
  have "count_ge e ds = 0" if "1 \<le> e" for e
  proof -
    have "\<not> d \<ge> of_int e" if "d \<in> set ds" for d
    proof -
      from assms that have "d < 1" by simp
      moreover from \<open>1 \<le> e\<close> have "(1::rat) \<le> of_int e" by simp
      ultimately show ?thesis by simp
    qed
    then show ?thesis by (simp add: count_ge_def filter_empty_conv)
  qed
  then show ?thesis by (auto simp: qualifying_def)
qed

lemma Ed_number_scan:
  assumes "rides units = Some ds"
  shows "Ed_number rides units =
           (if qualifying ds = {} then Inl ValueError else Inr (Max (qualifying ds)))"
proof -
  define cs where "cs = [e. (e, d) \<leftarrow> enumerate_from 1 (sorted_reverse ds), d \<ge> of_int e]"
  have set: "set cs = qualifying ds"
    unfolding cs_def by (rule candidates_qualifying)
  have run: "Ed_number rides units = py_max cs"
    using assms by (simp add: Ed_number_def cs_def)
  show ?thesis
  proof (cases cs)
    case Nil
    with set run show ?thesis by simp
  next
    case (Cons c cs')
    then have "py_max cs = Inr (Max (set cs))" by (intro py_max_eq) simp
    moreover from Cons set have "qualifying ds \<noteq> {}" by auto
    ultimately show ?thesis using set run by simp
  qed
qed






text \<open>
  Claim C2 expects 0 from \<open>Ed_number\<close> on an empty column and on a column whose entries
  are all \<open>< 1\<close>. What the code does there: no rank qualifies, the generator handed to
  \<^verbatim>\<open>max\<close> is empty, and \<open>Ed_number\<close> raises \<^verbatim>\<open>ValueError\<close>.
\<close>

theorem Ed_number_no_qualifying_ride_raises:
  assumes col: "rides units = Some ds" and small: "\<forall>d\<in>set ds. d < 1"
  shows "Ed_number rides units = Inl ValueError"
  using Ed_number_scan[of rides units ds] col none_qualifying[OF small] by simp

theorem Ed_number_no_qualifying_ride_raises_witness:
  "Ed_number [''miles'' \<mapsto> []] ''miles'' = Inl ValueError
     \<and> Ed_number [''miles'' \<mapsto> [1/2, 3/4]] ''miles'' = Inl ValueError"
proof -
  have c1: "[''miles'' \<mapsto> ([] :: rat list)] ''miles'' = Some []" by simp
  have s1: "\<forall>d\<in>set ([] :: rat list). d < 1" by simp
  have c2: "[''miles'' \<mapsto> [1/2, 3/4 :: rat]] ''miles'' = Some [1/2, 3/4]" by simp
  have s2: "\<forall>d\<in>set [1/2, 3/4 :: rat]. d < 1" by simp
  from Ed_number_no_qualifying_ride_raises[of "[''miles'' \<mapsto> []]" "''miles''" "[]"]
       Ed_number_no_qualifying_ride_raises[of "[''miles'' \<mapsto> [1/2, 3/4]]" "''miles''" "[1/2, 3/4]"]
       c1 c2 s1 s2
  show ?thesis by simp
qed

section \<open>Properties of the badges and of the progress report\<close>

lemma bind_Inr [simp]: "bind (Inr x) f = f x"
  by (simp add: bind_def)

lemma bind_Inl [simp]: "bind (Inl e) f = Inl e"
  by (simp add: bind_def)

lemma digits_of_nonempty: "digits_of n \<noteq> []"
  by (subst digits_of.simps) simp

lemma length_format_f:
  assumes "0 < p"
  shows "Suc (Suc p) \<le> length (format_f p x)"
proof -
  define whole where "whole = digits_of (round_half_even (\<bar>binary64 x\<bar> * 10 ^ p) div 10 ^ p)"
  define frac where "frac = digits_of (round_half_even (\<bar>binary64 x\<bar> * 10 ^ p) mod 10 ^ p)"
  have "whole \<noteq> []" by (simp add: whole_def digits_of_nonempty)
  then have w: "1 \<le> length whole" by (cases whole) simp_all
  have f: "p \<le> (p - length frac) + length frac" by simp
  have "format_f p x =
          (if x < 0 then ''-'' else []) @ whole @ ''.'' @ replicate (p - length frac) CHR ''0'' @ frac"
    using assms by (simp add: format_f_def Let_def whole_def frac_def)
  then have "length (format_f p x) \<ge> length whole + 1 + ((p - length frac) + length frac)"
    by simp
  with w f show ?thesis by linarith
qed

lemma rjust_id: "width \<le> length s \<Longrightarrow> rjust width s = s"
  by (simp add: rjust_def)

lemma rounded_short: "rjust 4 (format_f 2 y) = format_f 2 y"
  using length_format_f[of 2 y] by (intro rjust_id) simp

lemma round_half_even_bounds:
  assumes "0 \<le> z"
  shows "0 \<le> round_half_even z" and "of_int (round_half_even z) \<le> 2 * z"
proof -
  define f where "f = \<lfloor>z\<rfloor>"
  have f1: "of_int f \<le> z" unfolding f_def by linarith
  from assms have f0: "0 \<le> f" by (simp add: f_def)
  then have f0': "(0 :: rat) \<le> of_int f" by simp
  have cases: "round_half_even z = f \<or> (round_half_even z = f + 1 \<and> 1/2 \<le> z - of_int f)"
    by (auto simp: round_half_even_def Let_def f_def)
  from cases f0 show "0 \<le> round_half_even z" by auto
  from cases show "of_int (round_half_even z) \<le> 2 * z"
  proof
    assume "round_half_even z = f"
    with f1 f0' assms show ?thesis by simp
  next
    assume "round_half_even z = f + 1 \<and> 1/2 \<le> z - of_int f"
    with f0' show ?thesis by simp
  qed
qed

lemma binary64_bounds:
  assumes "0 \<le> y"
  shows "0 \<le> binary64 y" and "binary64 y \<le> 2 * y"
proof -
  define q where "q = max (floor_log 2 \<bar>y\<bar> - 52) (- 1074)"
  define w where "w = y / 2 powi q"
  have pos: "(0 :: rat) < 2 powi q" by (simp add: zero_less_power_int)
  from assms pos have w0: "0 \<le> w" by (simp add: w_def)
  have eq: "binary64 y = of_int (round_half_even w) * 2 powi q" if "y \<noteq> 0"
    using that by (simp add: binary64_def Let_def q_def w_def)
  show "0 \<le> binary64 y"
  proof (cases "y = 0")
    case True
    then show ?thesis by (simp add: binary64_def)
  next
    case False
    from round_half_even_bounds(1)[OF w0] have "(0 :: rat) \<le> of_int (round_half_even w)" by simp
    with pos show ?thesis unfolding eq[OF False] by (intro mult_nonneg_nonneg) simp_all
  qed
  show "binary64 y \<le> 2 * y"
  proof (cases "y = 0")
    case True
    then show ?thesis by (simp add: binary64_def)
  next
    case False
    from round_half_even_bounds(2)[OF w0]
    have "of_int (round_half_even w) * 2 powi q \<le> (2 * w) * 2 powi q"
      using pos by (intro mult_right_mono) simp_all
    also have "(2 * w) * 2 powi q = 2 * y" using pos by (simp add: w_def)
    finally show ?thesis unfolding eq[OF False] .
  qed
qed

lemma float64_small:
  assumes "0 \<le> y" and "y \<le> 1"
  shows "float64 y = Fin (binary64 y)"
proof -
  from binary64_bounds[OF assms(1)] assms(2) have "0 \<le> binary64 y" "binary64 y \<le> 2" by simp_all
  then have "\<not> overflow_threshold \<le> \<bar>binary64 y\<bar>" by (simp add: overflow_threshold_def)
  then show ?thesis by (simp add: float64_def Let_def)
qed

lemma tiers_below:
  "{t \<in> {99, 90, 75, 50, 25 :: int}. of_int t \<le> p} =
     (if 99 \<le> p then {99, 90, 75, 50, 25} else if 90 \<le> p then {90, 75, 50, 25}
      else if 75 \<le> p then {75, 50, 25} else if 50 \<le> p then {50, 25}
      else if 25 \<le> p then {25} else {})" for p :: rat
  by auto

lemma tier_strings:
  "py_str_int 99 = ''99''" "py_str_int 90 = ''90''" "py_str_int 75 = ''75''"
  "py_str_int 50 = ''50''" "py_str_int 25 = ''25''"
  by code_simp+

lemma badge_cases:
  "badge p = (if p < 25 then ''none''
       else py_str_int (Max {t \<in> {99, 90, 75, 50, 25}. of_int t \<le> p}) @ ''%'')"
  unfolding tiers_below by (simp add: badge_def)

text \<open>
  Claim C6. \<open>badge p\<close> is \<open>none\<close> when \<open>p < 25\<close> and otherwise the highest of the tiers
  99, 90, 75, 50, 25 that \<open>p\<close> reaches, printed with a percent sign; so 99.94 and 100
  give \<open>99%\<close> and 24.9 gives \<open>none\<close>.
\<close>

theorem badge_highest_tier:
  "badge p = (if p < 25 then ''none''
       else py_str_int (Max {t \<in> {99, 90, 75, 50, 25}. of_int t \<le> p}) @ ''%'')
   \<and> badge (9994/100) = ''99%'' \<and> badge (249/10) = ''none'' \<and> badge 100 = ''99%''"
proof -
  have "badge (9994/100) = ''99%''" "badge (249/10) = ''none''" "badge 100 = ''99%''"
    by (simp_all add: badge_def tier_strings)
  with badge_cases[of p] show ?thesis by simp
qed

text \<open>
  Claim C3 asks for the first threshold whose target miles exceed the miles done. The code
  misses it where \<open>pct\<close> equals a threshold: \<^verbatim>\<open>pct * miles / 100\<close> and \<^verbatim>\<open>b / 100 * miles\<close> are
  the same number, but rounded in different orders they can differ in the last bit. For
  \<open>pct = 90\<close> and \<open>miles = 13\<close> the miles done are \<open>11.7\<close> and the target of the 90% tier is
  \<open>11.700000000000001\<close>, so \<open>to_go\<close> reports the tier that \<open>badge\<close> gives as reached, with
  \<open>0.0\<close> miles to go, where the next target is the 99% tier; it does the same for
  \<open>pct = 99\<close> and \<open>miles = 7688.7\<close>, where no tier is left.
\<close>

theorem to_go_reports_reached_tier:
  "to_go (PyInt 90) (PyInt 13) bonuses = Inr ''  0.0 mi to 90% (6.5 points)''
   \<and> map_sum id float_repr_of (miles_done (PyInt 90) (PyInt 13)) = Inr ''11.7''
   \<and> map_sum id float_repr_of (target_miles (PyInt 90) (PyInt 13)) = Inr ''11.700000000000001''
   \<and> badge 90 = ''90%''
   \<and> to_go (PyInt 99) (PyFloat (float64 (76887/10))) bonuses = Inr ''  0.0 mi to 99% (769 points)''
   \<and> badge 99 = ''99%''"
proof -
  have "to_go (PyInt 90) (PyInt 13) bonuses = Inr ''  0.0 mi to 90% (6.5 points)''"
    by code_simp
  moreover have "map_sum id float_repr_of (miles_done (PyInt 90) (PyInt 13)) = Inr ''11.7''"
    by code_simp
  moreover have "map_sum id float_repr_of (target_miles (PyInt 90) (PyInt 13))
      = Inr ''11.700000000000001''"
    by code_simp
  moreover have "to_go (PyInt 99) (PyFloat (float64 (76887/10))) bonuses
      = Inr ''  0.0 mi to 99% (769 points)''"
    by code_simp
  moreover have "badge 90 = ''90%''" "badge 99 = ''99%''"
    by (simp_all add: badge_def tier_strings)
  ultimately show ?thesis by simp
qed

text \<open>
  Claim C4 says that for \<open>p = 20\<close> and \<open>m = 1000\<close> with the fine-grained table the delta of
  50 miles is rendered as \<open>50.0\<close>. It is not: 50 is above 10, so \<open>rounded\<close> prints it as the
  integer \<open>50\<close>, and the report is \<open>50 mi to 25% (300 points)\<close> right-justified.
\<close>

theorem to_go_20_1000_counterexample:
  "rounded (Fin 50) \<noteq> Inr ''50.0''
   \<and> to_go (PyInt 20) (PyInt 1000) bonuses \<noteq> Inr (rjust 5 ''50.0'' @ '' mi to 25% (300 points)'')"
  by code_simp

text \<open>
  Claim C4, amended. For \<open>p = 20\<close> and \<open>m = 1000\<close> with the fine-grained table, the miles
  done are 200, the first item of the table whose target miles exceed them is the 25% tier
  with its bonus 0.25, the target is 250, the delta \<open>250 - 200 = 50\<close> miles and the points
  \<open>0.25 * 1000 + 50 = 300\<close>; \<open>rounded\<close> renders the delta 50 as \<open>50\<close> and the points 300
  as \<open>300\<close>, and the returned string is \<open>50 mi to 25% (300 points)\<close> with the delta
  right-justified in five columns.
\<close>

theorem to_go_20_1000:
  "miles_done (PyInt 20) (PyInt 1000) = Inr (Fin 200)
   \<and> find (\<lambda>(b, bonus). case target_miles b (PyInt 1000) of
                             Inl e \<Rightarrow> False | Inr target \<Rightarrow> fless (Fin 200) target) bonuses
       = Some (PyInt 25, PyFloat (float64 (25/100)))
   \<and> target_miles (PyInt 25) (PyInt 1000) = Inr (Fin 250)
   \<and> fsub (Fin 250) (Fin 200) = Fin 50
   \<and> bonus_points (PyFloat (float64 (25/100))) (PyInt 1000) (Fin 50) = Inr (Fin 300)
   \<and> rounded (Fin 50) = Inr ''50'' \<and> rounded (Fin 300) = Inr ''300''
   \<and> to_go (PyInt 20) (PyInt 1000) bonuses
       = Inr (rjust 5 ''50'' @ '' mi to '' @ py_str (PyInt 25) @ ''% ('' @ ''300'' @ '' points)'')
   \<and> to_go (PyInt 20) (PyInt 1000) bonuses = Inr ''   50 mi to 25% (300 points)''"
proof -
  have "miles_done (PyInt 20) (PyInt 1000) = Inr (Fin 200)" by code_simp
  moreover have "find (\<lambda>(b, bonus). case target_miles b (PyInt 1000) of
                             Inl e \<Rightarrow> False | Inr target \<Rightarrow> fless (Fin 200) target) bonuses
       = Some (PyInt 25, PyFloat (float64 (25/100)))" by code_simp
  moreover have "target_miles (PyInt 25) (PyInt 1000) = Inr (Fin 250)" by code_simp
  moreover have "fsub (Fin 250) (Fin 200) = Fin 50" by code_simp
  moreover have "bonus_points (PyFloat (float64 (25/100))) (PyInt 1000) (Fin 50) = Inr (Fin 300)"
    by code_simp
  moreover have "rounded (Fin 50) = Inr ''50''" "rounded (Fin 300) = Inr ''300''" by code_simp+
  moreover have "to_go (PyInt 20) (PyInt 1000) bonuses = Inr ''   50 mi to 25% (300 points)''"
    by code_simp
  moreover have "rjust 5 ''50'' @ '' mi to '' @ py_str (PyInt 25) @ ''% ('' @ ''300'' @ '' points)''
      = ''   50 mi to 25% (300 points)''" by code_simp
  ultimately show ?thesis by simp
qed

text \<open>
  Claim C5 says that \<open>rounded(1500000)\<close> is \<open>1.50M\<close>. It is not: 1500000 is above
  1000000, so the recursive branch formats 1.5 to one decimal and appends \<open>M\<close>.
\<close>

theorem rounded_1500000_counterexample: "rounded (Fin 1500000) \<noteq> Inr ''1.50M''"
  by code_simp

text \<open>
  Claim C5, amended. \<open>rounded(1500000)\<close> is \<open>1.5M\<close>, \<open>rounded(15)\<close> is \<open>15\<close> and
  \<open>rounded(5.3)\<close> is \<open>5.3\<close>, following the rule: above 1000000, \<open>x / 1000000\<close> is
  formatted recursively and \<open>M\<close> appended; above 100000, \<open>x / 1000000\<close> is formatted to
  two decimals with \<open>M\<close>; above 10, \<open>x\<close> is formatted as a thousands-grouped integer;
  otherwise to one decimal.
\<close>

theorem rounded_rule:
  "rounded (Fin 1500000) = Inr ''1.5M'' \<and> rounded (Fin 15) = Inr ''15''
   \<and> rounded (float64 (53/10)) = Inr ''5.3''
   \<and> (\<forall>x. 1000000 < x \<longrightarrow>
         rounded (Fin x) = (case rounded (fdiv (Fin x) (Fin 1000000)) of
                              Inl e \<Rightarrow> Inl e | Inr s \<Rightarrow> Inr (s @ ''M'')))
   \<and> (\<forall>x. 100000 < x \<and> x \<le> 1000000 \<longrightarrow>
         rounded (Fin x) = Inr (format_float 2 (fdiv (Fin x) (Fin 1000000)) @ ''M''))
   \<and> (\<forall>x. 10 < x \<and> x \<le> 100000 \<longrightarrow> rounded (Fin x) = Inr (format_comma_d (round_half_even x)))
   \<and> (\<forall>x. x \<le> 10 \<longrightarrow> rounded (Fin x) = Inr (format_float 1 (Fin x)))"
proof -
  have ex: "rounded (Fin 1500000) = Inr ''1.5M''" "rounded (Fin 15) = Inr ''15''"
    "rounded (float64 (53/10)) = Inr ''5.3''"
    by code_simp+
  have r1: "rounded (Fin x) = (case rounded (fdiv (Fin x) (Fin 1000000)) of
                              Inl e \<Rightarrow> Inl e | Inr s \<Rightarrow> Inr (s @ ''M''))"
    if "1000000 < x" for x
    using that by (subst rounded.simps) simp
  have r2: "rounded (Fin x) = Inr (format_float 2 (fdiv (Fin x) (Fin 1000000)) @ ''M'')"
    if "100000 < x \<and> x \<le> 1000000" for x
  proof -
    from that have "float64 (x / 1000000) = Fin (binary64 (x / 1000000))"
      by (intro float64_small) simp_all
    with that show ?thesis by (subst rounded.simps) (simp add: rounded_short)
  qed
  have r3: "rounded (Fin x) = Inr (format_comma_d (round_half_even x))"
    if "10 < x \<and> x \<le> 100000" for x
    using that by (subst rounded.simps) simp
  have r4: "rounded (Fin x) = Inr (format_float 1 (Fin x))" if "x \<le> 10" for x
    using that by (subst rounded.simps) simp
  from ex r1 r2 r3 r4 show ?thesis by blast
qed

theorem rounded_rule_witness:
  "rounded (Fin 2500000) = Inr ''2.5M'' \<and> rounded (Fin 150000) = Inr ''0.15M''
   \<and> rounded (Fin 1234) = Inr ''1,234'' \<and> rounded (Fin (1/4)) = Inr ''0.2''"
proof -
  have e: "fdiv (Fin 2500000) (Fin 1000000) = Fin (5/2)" "rounded (Fin (5/2)) = Inr ''2.5''"
    "format_float 2 (fdiv (Fin 150000) (Fin 1000000)) @ ''M'' = ''0.15M''"
    "format_comma_d (round_half_even 1234) = ''1,234''" "format_float 1 (Fin (1/4)) = ''0.2''"
    by code_simp+
  have r1: "\<forall>x. 1000000 < x \<longrightarrow>
         rounded (Fin x) = (case rounded (fdiv (Fin x) (Fin 1000000)) of
                              Inl e \<Rightarrow> Inl e | Inr s \<Rightarrow> Inr (s @ ''M''))"
    and r2: "\<forall>x. 100000 < x \<and> x \<le> 1000000 \<longrightarrow>
         rounded (Fin x) = Inr (format_float 2 (fdiv (Fin x) (Fin 1000000)) @ ''M'')"
    and r3: "\<forall>x. 10 < x \<and> x \<le> 100000 \<longrightarrow> rounded (Fin x) = Inr (format_comma_d (round_half_even x))"
    and r4: "\<forall>x. x \<le> 10 \<longrightarrow> rounded (Fin x) = Inr (format_float 1 (Fin x))"
    using rounded_rule by blast+
  from r1[rule_format, of 2500000] e(1,2) have "rounded (Fin 2500000) = Inr ''2.5M''" by simp
  moreover from r2[rule_format, of 150000] e(3) have "rounded (Fin 150000) = Inr ''0.15M''" by simp
  moreover from r3[rule_format, of 1234] e(4) have "rounded (Fin 1234) = Inr ''1,234''" by simp
  moreover from r4[rule_format, of "1/4"] e(5) have "rounded (Fin (1/4)) = Inr ''0.2''" by simp
  ultimately show ?thesis by simp
qed

section \<open>Properties of the duration parser and of the derived columns\<close>

lemma enumerate_from_Nil: "enumerate_from k [] = []"
  by (simp add: enumerate_from_def)

lemma enumerate_from_Cons: "enumerate_from k (x # xs) = (k, x) # enumerate_from (k + 1) xs"
proof -
  have "[k .. k + int (length (x # xs)) - 1] = k # [k + 1 .. k + 1 + int (length xs) - 1]"
    by (subst upto_rec1) simp_all
  then show ?thesis by (simp add: enumerate_from_def)
qed

lemma digit_not_space: "is_digit c \<Longrightarrow> \<not> is_space c"
  by (auto simp: is_digit_def is_space_def)

lemma digit_not_sign: "is_digit c \<Longrightarrow> c \<noteq> CHR ''-'' \<and> c \<noteq> CHR ''+'' \<and> c \<noteq> CHR ''_''"
  by (auto simp: is_digit_def)

lemma strip_numeric:
  assumes "numeric field"
  shows "strip field = field"
proof -
  from assms obtain c cs where f: "field = c # cs" and c: "is_digit c"
    by (cases field) (auto simp: numeric_def)
  from f obtain d ds where r: "rev field = d # ds" by (cases "rev field") auto
  then have "d \<in> set field" by (metis list.set_intros(1) set_rev)
  with assms have d: "is_digit d" by (auto simp: numeric_def list_all_iff)
  have "dropWhile is_space field = field" using f c by (simp add: digit_not_space)
  moreover have "dropWhile is_space (rev field) = rev field" using r d by (simp add: digit_not_space)
  ultimately show ?thesis by (simp add: strip_def)
qed

lemma int_body_digits:
  "list_all is_digit ds \<Longrightarrow>
     int_body acc after_digit ds =
       (if ds = [] then (if after_digit then Some acc else None)
        else Some (foldl (\<lambda>acc c. 10 * acc + digit_val c) acc ds))"
  by (induction ds arbitrary: acc after_digit) auto

lemma filter_digits: "list_all is_digit ds \<Longrightarrow> filter is_digit ds = ds"
  by (induction ds) simp_all

lemma py_int_numeric:
  assumes "numeric field"
  shows "py_int field = Inr (decimal_value field)"
proof -
  from assms obtain c cs where f: "field = c # cs" and c: "is_digit c"
    by (cases field) (auto simp: numeric_def)
  from assms have "int_body 0 False field = Some (decimal_value field)"
    by (simp add: int_body_digits numeric_def decimal_value_def)
  moreover from assms have "\<not> max_str_digits < length (filter is_digit field)"
    by (simp add: numeric_def filter_digits)
  ultimately have "int_text field = Inr (decimal_value field)"
    by (simp add: int_text_def)
  with f c show ?thesis
    using strip_numeric[OF assms] digit_not_sign[of c] by (simp add: py_int_def)
qed

lemma sum_hours_positions:
  assumes "list_all numeric ys" and "\<forall>j < length ys. rev flds ! (k + j) = ys ! j"
  shows "sum_hours subtotal (enumerate_from (int k) ys)
           = add_positions flds subtotal [k ..< k + length ys]"
  using assms
proof (induction ys arbitrary: subtotal k)
  case Nil
  then show ?case by (simp add: enumerate_from_Nil)
next
  case (Cons y ys)
  from Cons.prems(1) have y: "py_int y = Inr (decimal_value y)" and ys: "list_all numeric ys"
    by (simp_all add: py_int_numeric)
  from Cons.prems(2) have here: "rev flds ! k = y" by auto
  have rest: "\<forall>j < length ys. rev flds ! (Suc k + j) = ys ! j"
  proof (intro allI impI)
    fix j assume "j < length ys"
    then have "Suc j < length (y # ys)" by simp
    with Cons.prems(2) have "rev flds ! (k + Suc j) = (y # ys) ! Suc j" by blast
    then show "rev flds ! (Suc k + j) = ys ! j" by simp
  qed
  have ih: "sum_hours subtotal' (enumerate_from (int (Suc k)) ys)
              = add_positions flds subtotal' [Suc k ..< Suc k + length ys]" for subtotal'
    by (rule Cons.IH[OF ys rest])
  have "k < k + length (y # ys)" by simp
  then have "[k ..< k + length (y # ys)] = k # [Suc k ..< k + length (y # ys)]"
    by (rule upt_conv_Cons)
  then have upt: "[k ..< k + length (y # ys)] = k # [Suc k ..< Suc k + length ys]"
    by simp
  have enum: "enumerate_from (int k) (y # ys) = (int k, y) # enumerate_from (int (Suc k)) ys"
    by (simp add: enumerate_from_Cons add.commute)
  show ?case
    by (simp only: upt enum sum_hours.simps add_positions.simps y ih contribution_def here bind_Inr)
qed

lemma parse_hours_numeric:
  assumes "list_all numeric (split_on CHR '':'' time)"
  shows "parse_hours time =
           bind (duration_hours (split_on CHR '':'' time)) (\<lambda>hrs. Inr (py_round_to hrs 2))"
proof -
  define flds where "flds = split_on CHR '':'' time"
  from assms have "list_all numeric (rev flds)" by (simp add: list_all_iff flds_def)
  moreover have "\<forall>j < length (rev flds). rev flds ! (0 + j) = rev flds ! j" by simp
  ultimately have "sum_hours (PyInt 0) (enumerate_from (int 0) (rev flds))
      = add_positions flds (PyInt 0) [0 ..< 0 + length (rev flds)]"
    by (rule sum_hours_positions)
  then show ?thesis by (simp add: parse_hours_def duration_hours_def flds_def)
qed

lemma fdiv_zero_not_finite: "\<not> is_finite (fdiv x (Fin 0))"
  by (cases x) auto

lemma fdiv_not_finite: "\<not> is_finite x \<Longrightarrow> \<not> is_finite (fdiv x y)"
  by (cases x; cases y) auto

lemma fmul_not_finite: "\<not> is_finite x \<Longrightarrow> \<not> is_finite (fmul x y)"
  by (cases x; cases y) auto

lemma frint_not_finite: "\<not> is_finite x \<Longrightarrow> \<not> is_finite (frint x)"
  by (cases x) auto

lemma fround_not_finite: "\<not> is_finite x \<Longrightarrow> \<not> is_finite (fround n x)"
  unfolding fround_def
  by (simp add: frint_not_finite fdiv_not_finite fmul_not_finite)

text \<open>
  Claim C8 says that \<open>parse_hours\<close> returns the sum of the fields' values times
  \<open>60 ^ (position - 2)\<close>, rounded to two decimals. It does not for \<open>2:06\<close>: the sum is
  \<open>2/60 + 6/3600 = 0.035\<close>, which rounds to 0.04, but the program adds the binary64
  numbers nearest to \<open>6/3600\<close> and \<open>2/60\<close>, gets \<open>0.034999999999999996\<close>, and returns
  0.03. For \<open>25:30\<close> the sum is 0.425, the program adds up to \<open>0.42500000000000004\<close> and
  returns 0.43.
\<close>

theorem parse_hours_2_06_counterexample:
  "parse_hours ''2:06'' = Inr (PyFloat (float64 (3/100)))
   \<and> float64 (3/100) \<noteq> float64 (4/100)
   \<and> (2 :: rat) / 60 + 6 / 3600 = 35/1000
   \<and> round_half_even ((2 / 60 + 6 / 3600) * 100) = 4
   \<and> map_sum id py_str (duration_hours [''2'', ''06'']) = Inr ''0.034999999999999996''
   \<and> parse_hours ''25:30'' = Inr (PyFloat (float64 (43/100)))
   \<and> map_sum id py_str (duration_hours [''25'', ''30'']) = Inr ''0.42500000000000004''"
proof -
  have "parse_hours ''2:06'' = Inr (PyFloat (float64 (3/100)))" by code_simp
  moreover have "float64 (3/100) \<noteq> float64 (4/100)" by code_simp
  moreover have "(2 :: rat) / 60 + 6 / 3600 = 35/1000" by simp
  moreover have "round_half_even ((2 / 60 + 6 / 3600) * 100) = 4" by code_simp
  moreover have "map_sum id py_str (duration_hours [''2'', ''06'']) = Inr ''0.034999999999999996''"
    by code_simp
  moreover have "parse_hours ''25:30'' = Inr (PyFloat (float64 (43/100)))" by code_simp
  moreover have "map_sum id py_str (duration_hours [''25'', ''30'']) = Inr ''0.42500000000000004''"
    by code_simp
  ultimately show ?thesis by simp
qed

text \<open>
  Claim C8, amended. For a duration whose colon-separated fields are all numeric,
  \<open>parse_hours\<close> adds, for the fields counted from the right from position 0 and in this
  order, the field's value times \<^verbatim>\<open>60 ** (position - 2)\<close> in Python's arithmetic, where the
  powers \<^verbatim>\<open>60 ** -2\<close> and \<^verbatim>\<open>60 ** -1\<close>, the products with them and the additions are
  rounded to binary64, and returns this sum rounded to two decimals; it raises
  \<^verbatim>\<open>OverflowError\<close> where a product or a subtotal is too large for a float. It maps
  \<open>4:30:00\<close> to 4.5 and \<open>28:49\<close> to 0.48.
\<close>

theorem parse_hours_sum:
  assumes "list_all numeric (split_on CHR '':'' time)"
  shows "parse_hours time =
           bind (duration_hours (split_on CHR '':'' time)) (\<lambda>hrs. Inr (py_round_to hrs 2))
         \<and> parse_hours ''4:30:00'' = Inr (PyFloat (Fin (45/10)))
         \<and> parse_hours ''28:49'' = Inr (PyFloat (float64 (48/100)))"
proof -
  have "parse_hours ''4:30:00'' = Inr (PyFloat (Fin (45/10)))"
    "parse_hours ''28:49'' = Inr (PyFloat (float64 (48/100)))"
    by code_simp+
  with parse_hours_numeric[OF assms] show ?thesis by simp
qed

theorem parse_hours_sum_witness:
  "parse_hours ''6:26:35'' = Inr (PyFloat (float64 (644/100)))
   \<and> map_sum id py_str (duration_hours [''6'', ''26'', ''35'']) = Inr ''6.4430555555555555''"
proof -
  have fields: "split_on CHR '':'' ''6:26:35'' = [''6'', ''26'', ''35'']" by simp
  have num: "list_all numeric (split_on CHR '':'' ''6:26:35'')"
    unfolding fields by (simp add: numeric_def is_digit_def max_str_digits_def)
  have dur: "map_sum id py_str (duration_hours [''6'', ''26'', ''35'']) = Inr ''6.4430555555555555''"
    by code_simp
  have rnd: "bind (duration_hours [''6'', ''26'', ''35'']) (\<lambda>hrs. Inr (py_round_to hrs 2))
      = Inr (PyFloat (float64 (644/100)))"
    by code_simp
  from parse_hours_sum[OF num] fields dur rnd show ?thesis by simp
qed

text \<open>
  Claim C7 says that a ride with \<open>hours = 0\<close> or \<open>miles = 0\<close> makes the deriver fail with an
  error. It does not: there is no check, the division yields an infinity or NaN, and the
  frame is returned with these values in it.
\<close>

theorem add_ride_columns_zero_hours_counterexample:
  "add_ride_columns
     \<lparr>date = None, year = Some [2020], hours = [Fin 0], miles = [Fin 10], feet = [100]\<rparr>
   = Inr \<lparr>date = None, year = Some [2020], hours = [Fin 0], miles = [Fin 10], feet = [100],
          mph = [PInf], vam = [PInf], fpmi = [Fin 10], pct = [float64 (19/100)],
          kms = [float64 (1609/100)], meters = [Fin 30]\<rparr>
   \<and> add_ride_columns
     \<lparr>date = None, year = None, hours = [Fin 1, Fin 0], miles = [Fin 0, Fin 0], feet = [100, 0]\<rparr>
   = Inr \<lparr>date = None, year = None, hours = [Fin 1, Fin 0], miles = [Fin 0, Fin 0],
          feet = [100, 0], mph = [Fin 0, NaN], vam = [Fin 30, NaN], fpmi = [PInf, NaN],
          pct = [PInf, NaN], kms = [Fin 0, Fin 0], meters = [Fin 30, Fin 0]\<rparr>"
  by code_simp

text \<open>
  Claim C7, amended. The deriver has no check of \<open>hours\<close> and \<open>miles\<close>. Whenever the year
  column is there or can be read from the dates, it returns the frame with the derived
  columns, and in a row with \<open>hours = 0\<close> the values of \<open>mph\<close> and \<open>vam\<close> are infinite or
  NaN, in a row with \<open>miles = 0\<close> the values of \<open>fpmi\<close> and \<open>pct\<close> are infinite or NaN.
\<close>

theorem add_ride_columns_no_guard:
  assumes yr: "insert_year rides = Inr rides'"
    and i: "i < length (hours rides)" "i < length (miles rides)" "i < length (feet rides)"
  shows "\<exists>r. add_ride_columns rides = Inr r
           \<and> rides_frame.truncate r = rides'
           \<and> (hours rides ! i = Fin 0 \<longrightarrow> \<not> is_finite (mph r ! i) \<and> \<not> is_finite (vam r ! i))
           \<and> (miles rides ! i = Fin 0 \<longrightarrow> \<not> is_finite (fpmi r ! i) \<and> \<not> is_finite (pct r ! i))"
proof -
  define ft where "ft = map (\<lambda>n. float64 (of_int n)) (feet rides)"
  define r where "r = rides_frame.extend rides'
     \<lparr> mph = map (fround 2) (map2 fdiv (miles rides) (hours rides)),
       vam = map (fround 0)
               (map (\<lambda>v. fdiv v (float64 (328084 / 100000))) (map2 fdiv ft (hours rides))),
       fpmi = map (fround 0) (map2 fdiv ft (miles rides)),
       pct = map (fround 2)
               (map (\<lambda>v. fdiv v (Fin 5280)) (map (\<lambda>v. fmul v (Fin 100)) (map2 fdiv ft (miles rides)))),
       kms = map (fround 2) (map (\<lambda>v. fmul v (float64 (1609 / 1000))) (miles rides)),
       meters = map (fround 0) (map (\<lambda>v. fmul v (float64 (3048 / 10000))) ft) \<rparr>"
  have ret: "add_ride_columns rides = Inr r"
    unfolding add_ride_columns_def Let_def r_def ft_def yr by (simp only: sum.case)
  have base: "rides_frame.truncate r = rides'"
    by (simp add: r_def rides_frame.truncate_def rides_frame.extend_def)
  have len: "i < length ft" using i by (simp add: ft_def)
  have mph: "mph r ! i = fround 2 (fdiv (miles rides ! i) (hours rides ! i))"
    using i by (simp add: r_def rides_frame.extend_def)
  have vam: "vam r ! i
      = fround 0 (fdiv (fdiv (ft ! i) (hours rides ! i)) (float64 (328084 / 100000)))"
    using i len by (simp add: r_def rides_frame.extend_def)
  have fpmi: "fpmi r ! i = fround 0 (fdiv (ft ! i) (miles rides ! i))"
    using i len by (simp add: r_def rides_frame.extend_def)
  have pct: "pct r ! i = fround 2 (fdiv (fmul (fdiv (ft ! i) (miles rides ! i)) (Fin 100)) (Fin 5280))"
    using i len by (simp add: r_def rides_frame.extend_def)
  have h: "\<not> is_finite (mph r ! i) \<and> \<not> is_finite (vam r ! i)" if "hours rides ! i = Fin 0"
    unfolding mph vam that
    by (intro conjI fround_not_finite fdiv_not_finite fdiv_zero_not_finite)
  have m: "\<not> is_finite (fpmi r ! i) \<and> \<not> is_finite (pct r ! i)" if "miles rides ! i = Fin 0"
    unfolding fpmi pct that
    by (intro conjI fround_not_finite fdiv_not_finite fmul_not_finite fdiv_zero_not_finite)
  from ret base h m show ?thesis by blast
qed

theorem add_ride_columns_no_guard_witness:
  "\<exists>r. add_ride_columns
          \<lparr>date = Some [''Mon, 10/5/2020''], year = None, hours = [Fin 0], miles = [Fin 0],
           feet = [541]\<rparr> = Inr r
       \<and> year r = Some [2020]
       \<and> \<not> is_finite (mph r ! 0) \<and> \<not> is_finite (vam r ! 0)
       \<and> \<not> is_finite (fpmi r ! 0) \<and> \<not> is_finite (pct r ! 0)"
proof -
  let ?rides = "\<lparr>date = Some [''Mon, 10/5/2020''], year = None, hours = [Fin 0], miles = [Fin 0],
                 feet = [541]\<rparr>"
  let ?rides' = "\<lparr>date = Some [''Mon, 10/5/2020''], year = Some [2020], hours = [Fin 0],
                  miles = [Fin 0], feet = [541]\<rparr>"
  have yr: "insert_year ?rides = Inr ?rides'" by code_simp
  have i: "0 < length (hours ?rides)" "0 < length (miles ?rides)" "0 < length (feet ?rides)"
    by simp_all
  from add_ride_columns_no_guard[OF yr i]
  obtain r where r: "add_ride_columns ?rides = Inr r" "rides_frame.truncate r = ?rides'"
    "\<not> is_finite (mph r ! 0) \<and> \<not> is_finite (vam r ! 0)"
    "\<not> is_finite (fpmi r ! 0) \<and> \<not> is_finite (pct r ! 0)"
    by auto
  from r(2) have "year r = Some [2020]"
    by (cases r) (simp add: rides_frame.truncate_def)
  with r show ?thesis by blast
qed

end
